theory Spec2Isabelle
  imports Main "HOL-Library.AList" "HOL-Library.Word"
begin

section \<open>The cipher provider\<close>

text \<open>
  \<^verbatim>\<open>app.py\<close> seals every participant email with \<^verbatim>\<open>cryptography.fernet.Fernet\<close>,
  a library outside the repository. A Fernet token is the URL-safe base64 text of
  \<^verbatim>\<open>0x80 || timestamp (8 bytes) || IV (16 bytes) || AES-128-CBC ciphertext || HMAC-SHA256\<close>.
  \<^verbatim>\<open>Fernet.encrypt(data)\<close> reads the clock (\<^verbatim>\<open>int(time.time())\<close>) and draws a
  fresh IV (\<^verbatim>\<open>os.urandom(16)\<close>) on every call; for a fixed key the token is a function of
  the data, the timestamp and the IV, and it determines all three (timestamp and IV are
  stored in the clear, and CBC under a fixed key and IV is injective).
  \<^verbatim>\<open>Fernet.decrypt(token)\<close> raises \<^verbatim>\<open>InvalidToken\<close> on a malformed token and
  on a token whose HMAC does not verify under the key.

  The model is symbolic: a token is the term \<open>Sealed k ts iv p\<close>, and any other text is
  \<open>Malformed\<close>. What \<^verbatim>\<open>encrypt\<close> takes from the clock and from the random source is
  an explicit argument, the \<open>draw\<close>. Python's \<^verbatim>\<open>str\<close> is modelled by \<open>string\<close>;
  \<^verbatim>\<open>.encode()\<close> and \<^verbatim>\<open>.decode()\<close> (UTF-8) are inverse to each other and are not
  modelled.
\<close>

type_synonym key = string

type_synonym draw = "64 word \<times> 128 word"

datatype token =
    Sealed key "64 word" "128 word" string
  | Malformed string

datatype error =
    HTTPException nat string
  | InvalidToken
  | KeyError
  | IllTyped

text \<open>\<^verbatim>\<open>def encrypt_email(email): return fernet.encrypt(email.encode()).decode()\<close>\<close>

definition encrypt_email :: "key \<Rightarrow> draw \<Rightarrow> string \<Rightarrow> token" where
  "encrypt_email k d email = Sealed k (fst d) (snd d) email"

text \<open>\<^verbatim>\<open>def decrypt_email(token): return fernet.decrypt(token.encode()).decode()\<close>\<close>

definition decrypt_email :: "key \<Rightarrow> token \<Rightarrow> error + string" where
  "decrypt_email k tok =
     (case tok of
        Sealed k' ts iv p \<Rightarrow> if k' = k then Inr p else Inl InvalidToken
      | Malformed s \<Rightarrow> Inl InvalidToken)"

section \<open>The roster\<close>

text \<open>
  An activity record is a dict with the four keys below. The stored records hold sealed
  tokens, the records that \<^verbatim>\<open>get_activities\<close> returns hold plaintext emails, so the
  record is polymorphic in the participant type. The module-level dict
  \<^verbatim>\<open>activities\<close> is an association list in insertion order.
\<close>

record 'p activity =
  description :: string
  schedule :: string
  max_participants :: int
  participants :: "'p list"

type_synonym 'p roster = "(string \<times> 'p activity) list"

text \<open>
  The dict literal of lines 37-92. Its eighteen \<^verbatim>\<open>encrypt_email\<close> call sites are
  numbered in evaluation order; \<open>seal i e\<close> is what call site \<open>i\<close> returns for the
  literal email \<open>e\<close>.
\<close>

definition activities_literal :: "(nat \<Rightarrow> string \<Rightarrow> 'p) \<Rightarrow> 'p roster" where
  "activities_literal seal =
   [(''Chess Club'',
       \<lparr>description = ''Learn strategies and compete in chess tournaments'',
        schedule = ''Fridays, 3:30 PM - 5:00 PM'',
        max_participants = 12,
        participants = [seal 0 ''michael@mergington.edu'', seal 1 ''daniel@mergington.edu'']\<rparr>),
    (''Programming Class'',
       \<lparr>description = ''Learn programming fundamentals and build software projects'',
        schedule = ''Tuesdays and Thursdays, 3:30 PM - 4:30 PM'',
        max_participants = 20,
        participants = [seal 2 ''emma@mergington.edu'', seal 3 ''sophia@mergington.edu'']\<rparr>),
    (''Gym Class'',
       \<lparr>description = ''Physical education and sports activities'',
        schedule = ''Mondays, Wednesdays, Fridays, 2:00 PM - 3:00 PM'',
        max_participants = 30,
        participants = [seal 4 ''john@mergington.edu'', seal 5 ''olivia@mergington.edu'']\<rparr>),
    (''Soccer Team'',
       \<lparr>description = ''Join the school soccer team and compete in matches'',
        schedule = ''Tuesdays and Thursdays, 4:00 PM - 5:30 PM'',
        max_participants = 22,
        participants = [seal 6 ''liam@mergington.edu'', seal 7 ''noah@mergington.edu'']\<rparr>),
    (''Basketball Team'',
       \<lparr>description = ''Practice and play basketball with the school team'',
        schedule = ''Wednesdays and Fridays, 3:30 PM - 5:00 PM'',
        max_participants = 15,
        participants = [seal 8 ''ava@mergington.edu'', seal 9 ''mia@mergington.edu'']\<rparr>),
    (''Art Club'',
       \<lparr>description = ''Explore your creativity through painting and drawing'',
        schedule = ''Thursdays, 3:30 PM - 5:00 PM'',
        max_participants = 15,
        participants = [seal 10 ''amelia@mergington.edu'', seal 11 ''harper@mergington.edu'']\<rparr>),
    (''Drama Club'',
       \<lparr>description = ''Act, direct, and produce plays and performances'',
        schedule = ''Mondays and Wednesdays, 4:00 PM - 5:30 PM'',
        max_participants = 20,
        participants = [seal 12 ''ella@mergington.edu'', seal 13 ''scarlett@mergington.edu'']\<rparr>),
    (''Math Club'',
       \<lparr>description = ''Solve challenging problems and participate in math competitions'',
        schedule = ''Tuesdays, 3:30 PM - 4:30 PM'',
        max_participants = 10,
        participants = [seal 14 ''james@mergington.edu'', seal 15 ''benjamin@mergington.edu'']\<rparr>),
    (''Debate Team'',
       \<lparr>description = ''Develop public speaking and argumentation skills'',
        schedule = ''Fridays, 4:00 PM - 5:30 PM'',
        max_participants = 12,
        participants = [seal 16 ''charlotte@mergington.edu'', seal 17 ''henry@mergington.edu'']\<rparr>)]"

text \<open>
  The roster at the end of module initialisation, under key \<open>k\<close>, when call site \<open>i\<close>
  draws \<open>ds i\<close>.
\<close>

definition activities :: "key \<Rightarrow> (nat \<Rightarrow> draw) \<Rightarrow> token roster" where
  "activities k ds = activities_literal (\<lambda>i. encrypt_email k (ds i))"

text \<open>The same literal with the emails left in the clear.\<close>

definition seed_emails :: "string roster" where
  "seed_emails = activities_literal (\<lambda>i e. e)"

section \<open>The request handlers\<close>

text \<open>
  The list comprehension \<^verbatim>\<open>[decrypt_email(e) for e in info["participants"]]\<close>: the first
  token that does not open raises.
\<close>

fun decrypt_all :: "key \<Rightarrow> token list \<Rightarrow> error + string list" where
  "decrypt_all k [] = Inr []"
| "decrypt_all k (e # es) =
     (case decrypt_email k e of
        Inl err \<Rightarrow> Inl err
      | Inr p \<Rightarrow>
          (case decrypt_all k es of
             Inl err \<Rightarrow> Inl err
           | Inr ps \<Rightarrow> Inr (p # ps)))"

text \<open>
  \<^verbatim>\<open>info.copy()\<close> followed by the assignment to its \<^verbatim>\<open>"participants"\<close> key: the
  other three entries are carried over.
\<close>

definition decrypted_info :: "'p activity \<Rightarrow> 'q list \<Rightarrow> 'q activity" where
  "decrypted_info info ps =
     \<lparr>description = description info, schedule = schedule info,
      max_participants = max_participants info, participants = ps\<rparr>"

text \<open>
  The loop of \<^verbatim>\<open>get_activities\<close> over \<^verbatim>\<open>activities.items()\<close>; \<open>acc\<close> is
  \<^verbatim>\<open>decrypted_activities\<close>, and \<open>AList.update\<close> is the dict assignment (replace in place,
  or append a new key).
\<close>

fun get_activities_loop ::
  "key \<Rightarrow> token roster \<Rightarrow> string roster \<Rightarrow> error + string roster" where
  "get_activities_loop k [] acc = Inr acc"
| "get_activities_loop k ((name, info) # rest) acc =
     (case decrypt_all k (participants info) of
        Inl err \<Rightarrow> Inl err
      | Inr ps \<Rightarrow> get_activities_loop k rest (AList.update name (decrypted_info info ps) acc))"

definition get_activities :: "key \<Rightarrow> token roster \<Rightarrow> error + string roster" where
  "get_activities k acts = get_activities_loop k acts []"

text \<open>
  \<^verbatim>\<open>signup_for_activity\<close> and \<^verbatim>\<open>unregister_from_activity\<close> return the response (or the
  exception raised) together with the roster after the call. \<open>d\<close> is the draw of the one
  \<^verbatim>\<open>encrypt_email\<close> call the handler makes.
\<close>

definition signup_for_activity ::
  "key \<Rightarrow> draw \<Rightarrow> token roster \<Rightarrow> string \<Rightarrow> string \<Rightarrow> (error + string) \<times> token roster" where
  "signup_for_activity k d acts activity_name email =
     (case map_of acts activity_name of
        None \<Rightarrow> (Inl (HTTPException 404 ''Activity not found''), acts)
      | Some activity \<Rightarrow>
          (let encrypted_email = encrypt_email k d email in
           if encrypted_email \<in> set (participants activity)
           then (Inl (HTTPException 400 ''Student is already signed up''), acts)
           else (Inr (''Signed up '' @ email @ '' for '' @ activity_name),
                 AList.update activity_name
                   (activity\<lparr>participants := participants activity @ [encrypted_email]\<rparr>) acts)))"

definition unregister_from_activity ::
  "key \<Rightarrow> draw \<Rightarrow> token roster \<Rightarrow> string \<Rightarrow> string \<Rightarrow> (error + string) \<times> token roster" where
  "unregister_from_activity k d acts activity_name email =
     (case map_of acts activity_name of
        None \<Rightarrow> (Inl (HTTPException 404 ''Activity not found''), acts)
      | Some activity \<Rightarrow>
          (let encrypted_email = encrypt_email k d email in
           if encrypted_email \<notin> set (participants activity)
           then (Inl (HTTPException 400 ''Student is not signed up for this activity''), acts)
           else (Inr (''Unregistered '' @ email @ '' from '' @ activity_name),
                 AList.update activity_name
                   (activity\<lparr>participants := remove1 encrypted_email (participants activity)\<rparr>) acts)))"

section \<open>Request sequences\<close>

text \<open>
  A client's requests against the two mutating endpoints, each with the draw its
  \<^verbatim>\<open>encrypt_email\<close> call makes. A request that raises leaves the roster as the handler
  left it; the server goes on with the next request.
\<close>

datatype request =
    Signup draw string string
  | Unregister draw string string

fun handle :: "key \<Rightarrow> token roster \<Rightarrow> request \<Rightarrow> token roster" where
  "handle k acts (Signup d activity_name email) =
     snd (signup_for_activity k d acts activity_name email)"
| "handle k acts (Unregister d activity_name email) =
     snd (unregister_from_activity k d acts activity_name email)"

definition run :: "key \<Rightarrow> token roster \<Rightarrow> request list \<Rightarrow> token roster" where
  "run k acts reqs = foldl (handle k) acts reqs"

text \<open>A series of signups for one activity, with the response to each.\<close>

fun signup_all ::
  "key \<Rightarrow> token roster \<Rightarrow> string \<Rightarrow> (draw \<times> string) list
     \<Rightarrow> (error + string) list \<times> token roster" where
  "signup_all k acts activity_name [] = ([], acts)"
| "signup_all k acts activity_name ((d, email) # reqs) =
     (let (r, acts1) = signup_for_activity k d acts activity_name email;
          (rs, acts2) = signup_all k acts1 activity_name reqs
      in (r # rs, acts2))"

text \<open>
  Each plaintext email occurs at most once in each participant list (and every token of
  the list opens).
\<close>

definition emails_unique :: "key \<Rightarrow> token roster \<Rightarrow> bool" where
  "emails_unique k acts =
     list_all (\<lambda>(name, info).
        case decrypt_all k (participants info) of
          Inl err \<Rightarrow> False
        | Inr ps \<Rightarrow> distinct ps) acts"

text \<open>Each sealed token occurs at most once in each participant list.\<close>

definition tokens_unique :: "token roster \<Rightarrow> bool" where
  "tokens_unique acts = list_all (\<lambda>(name, info). distinct (participants info)) acts"

text \<open>
  An example start of the process: a key, and the eighteen draws of module
  initialisation (clock at 0, the IVs 0 to 17).
\<close>

definition example_key :: key where
  "example_key = ''k''"

definition example_draws :: "nat \<Rightarrow> draw" where
  "example_draws i = (0, of_nat i)"

section \<open>The handlers on a store of objects\<close>

text \<open>
  \<^verbatim>\<open>get_activities\<close> copies each record (\<^verbatim>\<open>info.copy()\<close>, a shallow copy) and assigns a
  new list to the copy's \<^verbatim>\<open>"participants"\<close> key. Whether the stored records survive
  this depends on which object each assignment reaches, so this section models the objects:
  a store is the list of all objects allocated so far, an address is an index into it,
  and a dict or list holds references to other objects.

  A store that does not have the shape of the module's data (a reference to no object, a
  list where a dict is expected, a participant that is not a \<^verbatim>\<open>str\<close>) makes Python raise
  \<^verbatim>\<open>AttributeError\<close> or \<^verbatim>\<open>TypeError\<close>; the model raises \<open>IllTyped\<close> in all these
  cases. A \<^verbatim>\<open>str\<close> that is no token at all is \<open>Str\<close>, and opening it raises
  \<^verbatim>\<open>InvalidToken\<close>.
\<close>

datatype val = Str string | Tok token | Num int | Ref nat

datatype obj = Dict "(string \<times> val) list" | List "val list"

type_synonym store = "obj list"

definition deref :: "store \<Rightarrow> nat \<Rightarrow> obj option" where
  "deref h a = (if a < length h then Some (h ! a) else None)"

definition alloc :: "store \<Rightarrow> obj \<Rightarrow> nat \<times> store" where
  "alloc h ob = (length h, h @ [ob])"

text \<open>\<^verbatim>\<open>d[key] = v\<close> on the dict at address \<open>a\<close>.\<close>

definition dict_set :: "store \<Rightarrow> nat \<Rightarrow> string \<Rightarrow> val \<Rightarrow> store" where
  "dict_set h a key v =
     (case deref h a of
        Some (Dict kvs) \<Rightarrow> h[a := Dict (AList.update key v kvs)]
      | _ \<Rightarrow> h)"

text \<open>\<^verbatim>\<open>decrypt_email(e)\<close> on a value of the store.\<close>

definition decrypt_val :: "key \<Rightarrow> val \<Rightarrow> error + val" where
  "decrypt_val k v =
     (case v of
        Tok t \<Rightarrow> map_sum id Str (decrypt_email k t)
      | Str s \<Rightarrow> map_sum id Str (decrypt_email k (Malformed s))
      | _ \<Rightarrow> Inl IllTyped)"

fun decrypt_vals :: "key \<Rightarrow> val list \<Rightarrow> error + val list" where
  "decrypt_vals k [] = Inr []"
| "decrypt_vals k (e # es) =
     (case decrypt_val k e of
        Inl err \<Rightarrow> Inl err
      | Inr p \<Rightarrow>
          (case decrypt_vals k es of
             Inl err \<Rightarrow> Inl err
           | Inr ps \<Rightarrow> Inr (p # ps)))"

text \<open>
  The loop of \<^verbatim>\<open>get_activities\<close>: \<open>da\<close> is the address of \<^verbatim>\<open>decrypted_activities\<close>,
  the list is what is left of \<^verbatim>\<open>activities.items()\<close> (the loop does not assign to
  \<^verbatim>\<open>activities\<close>, so the items are those at loop entry). In one iteration, \<open>c\<close> is the
  copy \<^verbatim>\<open>decrypted_info\<close> and \<open>l'\<close> the list the comprehension builds.
\<close>

fun get_activities_items ::
  "key \<Rightarrow> nat \<Rightarrow> (string \<times> val) list \<Rightarrow> store \<Rightarrow> (error + val) \<times> store" where
  "get_activities_items k da [] h = (Inr (Ref da), h)"
| "get_activities_items k da ((name, v) # rest) h =
     (case v of
        Ref a \<Rightarrow>
          (case deref h a of
             Some (Dict entries) \<Rightarrow>
               (let (c, h1) = alloc h (Dict entries) in
                case map_of entries ''participants'' of
                  None \<Rightarrow> (Inl KeyError, h1)
                | Some (Ref l) \<Rightarrow>
                    (case deref h1 l of
                       Some (List es) \<Rightarrow>
                         (case decrypt_vals k es of
                            Inl err \<Rightarrow> (Inl err, h1)
                          | Inr ps \<Rightarrow>
                              (let (l', h2) = alloc h1 (List ps);
                                   h3 = dict_set h2 c ''participants'' (Ref l');
                                   h4 = dict_set h3 da name (Ref c)
                               in get_activities_items k da rest h4))
                     | _ \<Rightarrow> (Inl IllTyped, h1))
                | Some _ \<Rightarrow> (Inl IllTyped, h1))
           | _ \<Rightarrow> (Inl IllTyped, h))
      | _ \<Rightarrow> (Inl IllTyped, h))"

text \<open>\<^verbatim>\<open>get_activities\<close>, with the global \<^verbatim>\<open>activities\<close> bound to address \<open>root\<close>.\<close>

definition get_activities_store :: "key \<Rightarrow> nat \<Rightarrow> store \<Rightarrow> (error + val) \<times> store" where
  "get_activities_store k root h =
     (let (da, h1) = alloc h (Dict []) in
      case deref h1 root of
        Some (Dict items) \<Rightarrow> get_activities_items k da items h1
      | _ \<Rightarrow> (Inl IllTyped, h1))"

text \<open>
  Module initialisation on the store: evaluating the dict literal allocates, for each
  entry, the participant list and then the record, and at the end the outer dict.
\<close>

fun alloc_roster :: "token roster \<Rightarrow> (string \<times> val) list \<Rightarrow> store \<Rightarrow> nat \<times> store" where
  "alloc_roster [] items h = alloc h (Dict items)"
| "alloc_roster ((name, info) # rest) items h =
     (let (l, h1) = alloc h (List (map Tok (participants info)));
          (c, h2) = alloc h1 (Dict [(''description'', Str (description info)),
                                    (''schedule'', Str (schedule info)),
                                    (''max_participants'', Num (max_participants info)),
                                    (''participants'', Ref l)])
      in alloc_roster rest (AList.update name (Ref c) items) h2)"

text \<open>Reading a roster (of tokens or of plaintext emails) back from the store.\<close>

definition the_str :: "val \<Rightarrow> string option" where
  "the_str v = (case v of Str s \<Rightarrow> Some s | _ \<Rightarrow> None)"

definition the_tok :: "val \<Rightarrow> token option" where
  "the_tok v = (case v of Tok t \<Rightarrow> Some t | _ \<Rightarrow> None)"

definition the_num :: "val \<Rightarrow> int option" where
  "the_num v = (case v of Num n \<Rightarrow> Some n | _ \<Rightarrow> None)"

definition the_dict :: "store \<Rightarrow> val \<Rightarrow> (string \<times> val) list option" where
  "the_dict h v =
     (case v of
        Ref a \<Rightarrow> (case deref h a of Some (Dict kvs) \<Rightarrow> Some kvs | _ \<Rightarrow> None)
      | _ \<Rightarrow> None)"

definition the_list :: "store \<Rightarrow> val \<Rightarrow> val list option" where
  "the_list h v =
     (case v of
        Ref a \<Rightarrow> (case deref h a of Some (List vs) \<Rightarrow> Some vs | _ \<Rightarrow> None)
      | _ \<Rightarrow> None)"

fun those_vals :: "(val \<Rightarrow> 'p option) \<Rightarrow> val list \<Rightarrow> 'p list option" where
  "those_vals rd [] = Some []"
| "those_vals rd (v # vs) =
     Option.bind (rd v) (\<lambda>p. Option.bind (those_vals rd vs) (\<lambda>ps. Some (p # ps)))"

definition activity_at :: "(val \<Rightarrow> 'p option) \<Rightarrow> store \<Rightarrow> val \<Rightarrow> 'p activity option" where
  "activity_at rd h v =
     Option.bind (the_dict h v) (\<lambda>entries.
     Option.bind (Option.bind (map_of entries ''description'') the_str) (\<lambda>d.
     Option.bind (Option.bind (map_of entries ''schedule'') the_str) (\<lambda>s.
     Option.bind (Option.bind (map_of entries ''max_participants'') the_num) (\<lambda>m.
     Option.bind (Option.bind (map_of entries ''participants'') (the_list h)) (\<lambda>vs.
     Option.bind (those_vals rd vs) (\<lambda>ps.
       Some \<lparr>description = d, schedule = s, max_participants = m, participants = ps\<rparr>))))))"

fun roster_items ::
  "(val \<Rightarrow> 'p option) \<Rightarrow> store \<Rightarrow> (string \<times> val) list \<Rightarrow> 'p roster option" where
  "roster_items rd h [] = Some []"
| "roster_items rd h ((name, v) # rest) =
     Option.bind (activity_at rd h v) (\<lambda>info.
     Option.bind (roster_items rd h rest) (\<lambda>r. Some ((name, info) # r)))"

definition roster_at :: "(val \<Rightarrow> 'p option) \<Rightarrow> store \<Rightarrow> val \<Rightarrow> 'p roster option" where
  "roster_at rd h v = Option.bind (the_dict h v) (roster_items rd h)"

text \<open>
  Two notions for comparing stores: a dict whose values are all references, and two
  stores that hold the same objects except, possibly, at one address.
\<close>

definition refs_only :: "(string \<times> val) list \<Rightarrow> bool" where
  "refs_only kvs = list_all (\<lambda>(n, v). case v of Ref c \<Rightarrow> True | _ \<Rightarrow> False) kvs"

definition agree_except :: "nat \<Rightarrow> store \<Rightarrow> store \<Rightarrow> bool" where
  "agree_except da h h' \<longleftrightarrow>
     length h \<le> length h' \<and> (\<forall>a < length h. a \<noteq> da \<longrightarrow> h' ! a = h ! a)"

text \<open>
  What it means that \<^verbatim>\<open>get_activities\<close> returns new copies. The result dict is
  allocated first, at address \<open>da\<close>, so an object allocated by the call after it has an
  address above \<open>da\<close>. A value of the result dict is a fresh record when it refers to a
  dict above \<open>da\<close> whose \<^verbatim>\<open>"participants"\<close> entry refers to a list above \<open>da\<close>; the
  listing is fresh when the result dict exists and all its values are fresh records.
\<close>

definition fresh_record :: "nat \<Rightarrow> store \<Rightarrow> val \<Rightarrow> bool" where
  "fresh_record da h v =
     (case v of
        Ref c \<Rightarrow>
          da < c \<and>
          (case deref h c of
             Some (Dict entries) \<Rightarrow>
               (case map_of entries ''participants'' of
                  Some (Ref l) \<Rightarrow>
                    da < l \<and> (case deref h l of Some (List vs) \<Rightarrow> True | _ \<Rightarrow> False)
                | _ \<Rightarrow> False)
           | _ \<Rightarrow> False)
      | _ \<Rightarrow> False)"

definition fresh_listing :: "nat \<Rightarrow> store \<Rightarrow> bool" where
  "fresh_listing da h =
     (case deref h da of
        Some (Dict items) \<Rightarrow> list_all (\<lambda>(name, v). fresh_record da h v) items
      | _ \<Rightarrow> False)"

text \<open>The example roster, and the example store with the address of its outer dict.\<close>

definition example_roster :: "token roster" where
  "example_roster = activities example_key example_draws"

definition example_store :: "nat \<times> store" where
  "example_store = alloc_roster example_roster [] []"

text \<open>The example roster after one new student has signed up for the Chess Club.\<close>

definition example_enrolled :: "token roster" where
  "example_enrolled =
     snd (signup_for_activity example_key (1, 1) example_roster
            ''Chess Club'' ''new@student.edu'')"

text \<open>Thirteen signup requests of thirteen students, none of them in the seed data.\<close>

definition thirteen_students :: "(draw \<times> string) list" where
  "thirteen_students =
     [((1, 1), ''s01@student.edu''), ((1, 2), ''s02@student.edu''),
      ((1, 3), ''s03@student.edu''), ((1, 4), ''s04@student.edu''),
      ((1, 5), ''s05@student.edu''), ((1, 6), ''s06@student.edu''),
      ((1, 7), ''s07@student.edu''), ((1, 8), ''s08@student.edu''),
      ((1, 9), ''s09@student.edu''), ((1, 10), ''s10@student.edu''),
      ((1, 11), ''s11@student.edu''), ((1, 12), ''s12@student.edu''),
      ((1, 13), ''s13@student.edu'')]"

section \<open>Sealing and opening\<close>

lemmas example_eval = signup_for_activity_def unregister_from_activity_def activities_def
  activities_literal_def encrypt_email_def decrypt_email_def example_key_def example_draws_def
  example_roster_def example_enrolled_def Let_def get_activities_def decrypted_info_def

lemma decrypt_encrypt: "decrypt_email k (encrypt_email k d x) = Inr x"
  by (simp add: decrypt_email_def encrypt_email_def)

text \<open>Two sealed tokens are equal only if key, draw and plaintext all are.\<close>

lemma encrypt_email_eq_iff:
  "encrypt_email k d x = encrypt_email k' d' x' \<longleftrightarrow> k = k' \<and> d = d' \<and> x = x'"
  by (auto simp: encrypt_email_def prod_eq_iff)

text \<open>
  Claim C1: two calls of \<^verbatim>\<open>encrypt_email\<close> on the same email under the same key return
  equal tokens. The code does not do this: sealing \<^verbatim>\<open>new@student.edu\<close> twice under one
  key, with the two IVs 1 and 2, gives two different tokens, and both open to the same
  email.
\<close>

theorem encrypt_email_two_draws:
  "encrypt_email example_key (1, 1) ''new@student.edu''
     \<noteq> encrypt_email example_key (1, 2) ''new@student.edu'' \<and>
   decrypt_email example_key (encrypt_email example_key (1, 1) ''new@student.edu'')
     = Inr ''new@student.edu'' \<and>
   decrypt_email example_key (encrypt_email example_key (1, 2) ''new@student.edu'')
     = Inr ''new@student.edu''"
  by (simp add: encrypt_email_def decrypt_email_def)

section \<open>Signing up and unregistering\<close>

lemma signup_Inr:
  "signup_for_activity k d acts A e = (Inr msg, acts') \<Longrightarrow>
   \<exists>info. map_of acts A = Some info \<and> encrypt_email k d e \<notin> set (participants info) \<and>
     acts' = AList.update A (info\<lparr>participants := participants info @ [encrypt_email k d e]\<rparr>) acts"
  by (auto simp: signup_for_activity_def Let_def split: option.splits if_splits)

lemma unregister_Inr:
  "unregister_from_activity k d acts A e = (Inr msg, acts') \<Longrightarrow>
   \<exists>info. map_of acts A = Some info \<and> encrypt_email k d e \<in> set (participants info) \<and>
     acts' = AList.update A
               (info\<lparr>participants := remove1 (encrypt_email k d e) (participants info)\<rparr>) acts"
  by (auto simp: unregister_from_activity_def Let_def split: option.splits if_splits)

text \<open>
  When the second call happens to make the same draw as the first, the handlers do
  recognise the email: a repeated signup is refused, and unregistering undoes the signup.
\<close>

lemma signup_twice_same_draw:
  "fst (signup_for_activity k d acts A e) = Inr msg \<Longrightarrow>
   signup_for_activity k d (snd (signup_for_activity k d acts A e)) A e
     = (Inl (HTTPException 400 ''Student is already signed up''),
        snd (signup_for_activity k d acts A e))"
  by (auto simp: signup_for_activity_def Let_def update_conv' split: option.splits if_splits)

lemma unregister_after_signup_same_draw:
  "fst (signup_for_activity k d acts A e) = Inr msg \<Longrightarrow>
   unregister_from_activity k d (snd (signup_for_activity k d acts A e)) A e
     = (Inr (''Unregistered '' @ e @ '' from '' @ A), acts)"
  by (auto simp: signup_for_activity_def unregister_from_activity_def Let_def update_conv'
        remove1_append update_triv split: option.splits if_splits)

text \<open>
  Claim C2: signing up the same email for the same activity twice in a row succeeds the
  first time and fails with 400 (already signed up) the second time. The code accepts
  both: on the example roster, \<^verbatim>\<open>new@student.edu\<close> signs up for the Chess Club with
  IV 1 and again with IV 2, and both calls return the success message.
\<close>

theorem signup_twice_both_accepted:
  "signup_for_activity example_key (1, 1) example_roster ''Chess Club'' ''new@student.edu''
     = (Inr ''Signed up new@student.edu for Chess Club'', example_enrolled) \<and>
   fst (signup_for_activity example_key (1, 2) example_enrolled
          ''Chess Club'' ''new@student.edu'')
     = Inr ''Signed up new@student.edu for Chess Club''"
  by (simp add: example_eval)

section \<open>Uniqueness of participants\<close>

lemma set_update_subset: "set (AList.update k v al) \<subseteq> insert (k, v) (set al)"
  by (induction al) auto

lemma tokens_unique_update:
  "tokens_unique acts \<Longrightarrow> distinct (participants info') \<Longrightarrow>
   tokens_unique (AList.update A info' acts)"
  using set_update_subset[of A info' acts]
  by (fastforce simp: tokens_unique_def list_all_iff)

lemma tokens_unique_lookup:
  "tokens_unique acts \<Longrightarrow> map_of acts A = Some info \<Longrightarrow> distinct (participants info)"
  by (auto simp: tokens_unique_def list_all_iff dest!: map_of_SomeD)

lemma tokens_unique_handle: "tokens_unique acts \<Longrightarrow> tokens_unique (handle k acts r)"
proof (cases r)
  case (Signup d A e)
  assume u: "tokens_unique acts"
  show ?thesis
    using u tokens_unique_lookup[OF u, of A]
    by (auto simp: Signup signup_for_activity_def Let_def split: option.splits
          intro!: tokens_unique_update)
next
  case (Unregister d A e)
  assume u: "tokens_unique acts"
  show ?thesis
    using u tokens_unique_lookup[OF u, of A]
    by (auto simp: Unregister unregister_from_activity_def Let_def split: option.splits
          intro!: tokens_unique_update)
qed

lemma tokens_unique_activities: "tokens_unique (activities k ds)"
  by (simp add: tokens_unique_def activities_def activities_literal_def encrypt_email_def)

text \<open>
  What the membership test of the handlers does maintain: in every roster reached from
  the seed data, no sealed token occurs twice in a participant list.
\<close>

lemma tokens_unique_run: "tokens_unique acts \<Longrightarrow> tokens_unique (run k acts reqs)"
  unfolding run_def by (induction reqs arbitrary: acts) (simp_all add: tokens_unique_handle)

text \<open>
  Claim C3: in every roster reachable from the seed data by signups and unregistrations,
  each plaintext email occurs at most once in each participant list. The code reaches a
  roster where this fails: after two signups of \<^verbatim>\<open>new@student.edu\<close> for the Chess Club
  with the IVs 1 and 2, the list holds two tokens of that email.
\<close>

theorem duplicate_email_reachable:
  "\<not> emails_unique example_key
       (run example_key example_roster
          [Signup (1, 1) ''Chess Club'' ''new@student.edu'',
           Signup (1, 2) ''Chess Club'' ''new@student.edu''])"
  by (simp add: example_eval emails_unique_def run_def)

text \<open>
  Claim C4: after \<^verbatim>\<open>new@student.edu\<close> signs up for the Chess Club, the listing shows
  three participants, and unregistering the email at once succeeds and restores the two
  seeded emails. The first half holds. The code then refuses the unregistration: with a
  new IV the email seals to a token that is not in the list, the handler raises 400, and
  the roster keeps the three participants.
\<close>

theorem unregister_after_signup_rejected:
  "(case get_activities example_key example_enrolled of
      Inl err \<Rightarrow> None
    | Inr listing \<Rightarrow> map_option participants (map_of listing ''Chess Club''))
     = Some [''michael@mergington.edu'', ''daniel@mergington.edu'', ''new@student.edu''] \<and>
   unregister_from_activity example_key (1, 2) example_enrolled
       ''Chess Club'' ''new@student.edu''
     = (Inl (HTTPException 400 ''Student is not signed up for this activity''),
        example_enrolled)"
  by (simp add: example_eval)

section \<open>Listing\<close>

text \<open>
  Claim C5: opening a sealed email gives the email back, and on the seed data
  \<^verbatim>\<open>get_activities\<close> returns, for every activity, exactly the emails that were sealed
  when the roster was built, whatever the key and the draws.
\<close>

theorem seed_round_trip:
  "decrypt_email k (encrypt_email k d x) = Inr x \<and>
   get_activities k (activities k ds) = Inr seed_emails"
  by (simp add: get_activities_def activities_def activities_literal_def seed_emails_def
        decrypted_info_def encrypt_email_def decrypt_email_def)

section \<open>Errors\<close>

text \<open>
  Claim C6: for an activity name that is not in the roster, both signup and unregister
  raise 404 (activity not found), for every email, and leave the roster as it is.
\<close>

theorem unknown_activity_not_found:
  "A \<notin> fst ` set acts \<Longrightarrow>
   signup_for_activity k d acts A e
     = (Inl (HTTPException 404 ''Activity not found''), acts) \<and>
   unregister_from_activity k d acts A e
     = (Inl (HTTPException 404 ''Activity not found''), acts)"
  by (simp add: signup_for_activity_def unregister_from_activity_def
        map_of_eq_None_iff[symmetric])

theorem unknown_activity_not_found_witness:
  "''Nonexistent Club'' \<notin> fst ` set example_roster \<and>
   signup_for_activity example_key (1, 1) example_roster
       ''Nonexistent Club'' ''new@student.edu''
     = (Inl (HTTPException 404 ''Activity not found''), example_roster) \<and>
   unregister_from_activity example_key (1, 1) example_roster
       ''Nonexistent Club'' ''new@student.edu''
     = (Inl (HTTPException 404 ''Activity not found''), example_roster)"
proof -
  have h: "''Nonexistent Club'' \<notin> fst ` set example_roster"
    by (simp add: example_roster_def activities_def activities_literal_def)
  from h unknown_activity_not_found[OF h] show ?thesis by blast
qed

text \<open>
  Claim C8: when signup or unregister raises, whichever the error, the roster after the
  call is the roster before it.
\<close>

theorem error_leaves_roster:
  "(fst (signup_for_activity k d acts A e) = Inl err \<longrightarrow>
      snd (signup_for_activity k d acts A e) = acts) \<and>
   (fst (unregister_from_activity k d acts A e) = Inl err \<longrightarrow>
      snd (unregister_from_activity k d acts A e) = acts)"
  by (simp add: signup_for_activity_def unregister_from_activity_def Let_def
        split: option.splits)

theorem error_leaves_roster_witness:
  "fst (signup_for_activity example_key (0, 0) example_roster
          ''Chess Club'' ''michael@mergington.edu'')
     = Inl (HTTPException 400 ''Student is already signed up'') \<and>
   snd (signup_for_activity example_key (0, 0) example_roster
          ''Chess Club'' ''michael@mergington.edu'') = example_roster \<and>
   fst (unregister_from_activity example_key (0, 0) example_roster
          ''Chess Club'' ''new@student.edu'')
     = Inl (HTTPException 400 ''Student is not signed up for this activity'') \<and>
   snd (unregister_from_activity example_key (0, 0) example_roster
          ''Chess Club'' ''new@student.edu'') = example_roster"
proof -
  have h1: "fst (signup_for_activity example_key (0, 0) example_roster
                   ''Chess Club'' ''michael@mergington.edu'')
              = Inl (HTTPException 400 ''Student is already signed up'')"
    by (simp add: example_eval)
  have h2: "fst (unregister_from_activity example_key (0, 0) example_roster
                   ''Chess Club'' ''new@student.edu'')
              = Inl (HTTPException 400 ''Student is not signed up for this activity'')"
    by (simp add: example_eval)
  from h1 h2
    error_leaves_roster[of example_key "(0, 0)" example_roster "''Chess Club''"
      "''michael@mergington.edu''" "HTTPException 400 ''Student is already signed up''"]
    error_leaves_roster[of example_key "(0, 0)" example_roster "''Chess Club''"
      "''new@student.edu''" "HTTPException 400 ''Student is not signed up for this activity''"]
  show ?thesis by blast
qed

section \<open>What a successful request changes\<close>

lemma update_existing_frame:
  "map_of acts A = Some info \<Longrightarrow>
   map fst (AList.update A info' acts) = map fst acts \<and>
   (\<forall>B. B \<noteq> A \<longrightarrow> map_of (AList.update A info' acts) B = map_of acts B) \<and>
   map_of (AList.update A info' acts) A = Some info'"
proof -
  assume m: "map_of acts A = Some info"
  have "A \<in> dom (map_of acts)" using m by blast
  then have "A \<in> fst ` set acts" by (simp add: dom_map_of_conv_image_fst)
  then show ?thesis by (simp add: update_keys update_conv')
qed

text \<open>
  Claim C9: a successful signup or unregistration for activity \<open>A\<close> changes nothing but
  the participant list of \<open>A\<close>: the activity names (and their order) stay, every other
  activity keeps its record, and \<open>A\<close> keeps its description, schedule and
  \<^verbatim>\<open>max_participants\<close>.
\<close>

theorem success_frame:
  "handler = signup_for_activity \<or> handler = unregister_from_activity \<Longrightarrow>
   handler k d acts A e = (Inr msg, acts') \<Longrightarrow>
   map fst acts' = map fst acts \<and>
   (\<forall>B. B \<noteq> A \<longrightarrow> map_of acts' B = map_of acts B) \<and>
   (\<exists>info info'. map_of acts A = Some info \<and> map_of acts' A = Some info' \<and>
      description info' = description info \<and> schedule info' = schedule info \<and>
      max_participants info' = max_participants info)"
proof (erule disjE)
  assume "handler = signup_for_activity" and r: "handler k d acts A e = (Inr msg, acts')"
  then obtain info where i: "map_of acts A = Some info"
    and a: "acts' = AList.update A
              (info\<lparr>participants := participants info @ [encrypt_email k d e]\<rparr>) acts"
    using signup_Inr by blast
  show ?thesis unfolding a using update_existing_frame[OF i] i by auto
next
  assume "handler = unregister_from_activity" and r: "handler k d acts A e = (Inr msg, acts')"
  then obtain info where i: "map_of acts A = Some info"
    and a: "acts' = AList.update A
              (info\<lparr>participants := remove1 (encrypt_email k d e) (participants info)\<rparr>) acts"
    using unregister_Inr by blast
  show ?thesis unfolding a using update_existing_frame[OF i] i by auto
qed

theorem success_frame_witness:
  "signup_for_activity example_key (1, 1) example_roster ''Chess Club'' ''new@student.edu''
     = (Inr ''Signed up new@student.edu for Chess Club'', example_enrolled) \<and>
   map fst example_enrolled = map fst example_roster \<and>
   map_of example_enrolled ''Programming Class'' = map_of example_roster ''Programming Class'' \<and>
   (\<exists>info info'. map_of example_roster ''Chess Club'' = Some info \<and>
      map_of example_enrolled ''Chess Club'' = Some info' \<and>
      description info' = description info \<and> schedule info' = schedule info \<and>
      max_participants info' = max_participants info)"
proof -
  have r: "signup_for_activity example_key (1, 1) example_roster
             ''Chess Club'' ''new@student.edu''
           = (Inr ''Signed up new@student.edu for Chess Club'', example_enrolled)"
    by (simp add: example_eval)
  note f = success_frame[OF disjI1[OF refl] r]
  have ne: "''Programming Class'' \<noteq> ''Chess Club''" by simp
  have o: "map_of example_enrolled ''Programming Class''
             = map_of example_roster ''Programming Class''"
    using f[THEN conjunct2, THEN conjunct1, THEN spec, of "''Programming Class''",
            THEN mp, OF ne] .
  show ?thesis
    using r f[THEN conjunct1] o f[THEN conjunct2, THEN conjunct2]
    by (simp only: simp_thms)
qed

section \<open>Capacity\<close>

lemma signup_all_fresh:
  "map_of acts A = Some info \<Longrightarrow>
   distinct (map (\<lambda>(d, e). encrypt_email k d e) reqs) \<Longrightarrow>
   (\<forall>(d, e) \<in> set reqs. encrypt_email k d e \<notin> set (participants info)) \<Longrightarrow>
   signup_all k acts A reqs =
     (map (\<lambda>(d, e). Inr (''Signed up '' @ e @ '' for '' @ A)) reqs,
      AList.update A
        (info\<lparr>participants :=
                 participants info @ map (\<lambda>(d, e). encrypt_email k d e) reqs\<rparr>) acts)"
proof (induction reqs arbitrary: acts info)
  case Nil
  then show ?case by (simp add: update_triv)
next
  case (Cons r reqs)
  obtain d e where r: "r = (d, e)" by (cases r)
  let ?t = "encrypt_email k d e"
  let ?info1 = "info\<lparr>participants := participants info @ [?t]\<rparr>"
  let ?acts1 = "AList.update A ?info1 acts"
  have fresh: "?t \<notin> set (participants info)" using Cons.prems(3) r by auto
  have s1: "signup_for_activity k d acts A e = (Inr (''Signed up '' @ e @ '' for '' @ A), ?acts1)"
    using Cons.prems(1) fresh by (simp add: signup_for_activity_def Let_def)
  have m1: "map_of ?acts1 A = Some ?info1" by (simp add: update_conv')
  have d1: "distinct (map (\<lambda>(d, e). encrypt_email k d e) reqs)" using Cons.prems(2) by simp
  have f1: "\<forall>(d, e) \<in> set reqs. encrypt_email k d e \<notin> set (participants ?info1)"
  proof (clarify)
    fix d' e' assume i: "(d', e') \<in> set reqs"
      and c: "encrypt_email k d' e' \<in> set (participants ?info1)"
    have "encrypt_email k d' e' \<notin> set (participants info)" using Cons.prems(3) i by auto
    moreover have "encrypt_email k d' e' \<noteq> ?t"
    proof
      assume "encrypt_email k d' e' = ?t"
      then have "?t \<in> (\<lambda>(d, e). encrypt_email k d e) ` set reqs" using i by force
      then show False using Cons.prems(2) r by simp
    qed
    ultimately show False using c by simp
  qed
  from Cons.IH[OF m1 d1 f1] s1 r show ?case by simp
qed

text \<open>
  Claim C7: signup makes no check against \<^verbatim>\<open>max_participants\<close>. Starting from the
  seed data (Chess Club: two participants, \<^verbatim>\<open>max_participants\<close> 12), any series of
  signups for the Chess Club by distinct students who are not yet in the club succeeds
  in full, whatever its length and whatever the draws: every response is the success
  message, every new token is appended, and \<^verbatim>\<open>max_participants\<close> is still 12. With
  eleven requests the club has 13 participants, with thirteen it has 15.
\<close>

theorem signup_ignores_capacity:
  "distinct (map snd reqs) \<Longrightarrow>
   set (map snd reqs) \<inter> {''michael@mergington.edu'', ''daniel@mergington.edu''} = {} \<Longrightarrow>
   fst (signup_all k (activities k ds) ''Chess Club'' reqs)
     = map (\<lambda>(d, e). Inr (''Signed up '' @ e @ '' for Chess Club'')) reqs \<and>
   map_option max_participants
       (map_of (snd (signup_all k (activities k ds) ''Chess Club'' reqs)) ''Chess Club'')
     = Some 12 \<and>
   map_option (\<lambda>info. length (participants info))
       (map_of (snd (signup_all k (activities k ds) ''Chess Club'' reqs)) ''Chess Club'')
     = Some (2 + length reqs) \<and>
   map_option participants
       (map_of (snd (signup_all k (activities k ds) ''Chess Club'' reqs)) ''Chess Club'')
     = Some ([encrypt_email k (ds 0) ''michael@mergington.edu'',
              encrypt_email k (ds 1) ''daniel@mergington.edu'']
             @ map (\<lambda>(d, e). encrypt_email k d e) reqs)"
proof -
  assume dist: "distinct (map snd reqs)"
    and disj: "set (map snd reqs)
                 \<inter> {''michael@mergington.edu'', ''daniel@mergington.edu''} = {}"
  let ?info = "\<lparr>description = ''Learn strategies and compete in chess tournaments'',
        schedule = ''Fridays, 3:30 PM - 5:00 PM'',
        max_participants = 12,
        participants = [encrypt_email k (ds 0) ''michael@mergington.edu'',
                        encrypt_email k (ds 1) ''daniel@mergington.edu'']\<rparr>"
  have m: "map_of (activities k ds) ''Chess Club'' = Some ?info"
    by (simp add: activities_def activities_literal_def)
  have "inj_on (\<lambda>(d, e). encrypt_email k d e) (set reqs)"
    using dist by (auto simp: inj_on_def encrypt_email_eq_iff distinct_map)
  then have d: "distinct (map (\<lambda>(d, e). encrypt_email k d e) reqs)"
    using dist by (simp add: distinct_map distinct_map[THEN iffD1, OF dist])
  have f: "\<forall>(d, e) \<in> set reqs. encrypt_email k d e \<notin> set (participants ?info)"
  proof (clarify)
    fix d e assume i: "(d, e) \<in> set reqs"
      and c: "encrypt_email k d e \<in> set (participants ?info)"
    have "e \<in> set (map snd reqs)" using i by force
    then have "e \<notin> {''michael@mergington.edu'', ''daniel@mergington.edu''}"
      using disj by blast
    then have "e \<noteq> ''michael@mergington.edu''" "e \<noteq> ''daniel@mergington.edu''"
      by simp_all
    then show False using c by (simp add: encrypt_email_eq_iff)
  qed
  show ?thesis
    unfolding signup_all_fresh[OF m d f] by (simp add: update_conv')
qed

theorem signup_ignores_capacity_witness:
  "distinct (map snd thirteen_students) \<and>
   set (map snd thirteen_students)
     \<inter> {''michael@mergington.edu'', ''daniel@mergington.edu''} = {} \<and>
   fst (signup_all example_key (activities example_key example_draws)
          ''Chess Club'' thirteen_students)
     = map (\<lambda>(d, e). Inr (''Signed up '' @ e @ '' for Chess Club'')) thirteen_students \<and>
   map_option max_participants
       (map_of (snd (signup_all example_key (activities example_key example_draws)
                       ''Chess Club'' thirteen_students)) ''Chess Club'')
     = Some 12 \<and>
   map_option (\<lambda>info. length (participants info))
       (map_of (snd (signup_all example_key (activities example_key example_draws)
                       ''Chess Club'' thirteen_students)) ''Chess Club'')
     = Some 15"
proof -
  have h1: "distinct (map snd thirteen_students)"
    by (simp add: thirteen_students_def)
  have h2: "set (map snd thirteen_students)
              \<inter> {''michael@mergington.edu'', ''daniel@mergington.edu''} = {}"
    by (simp add: thirteen_students_def)
  have l: "2 + length thirteen_students = 15"
    by (simp add: thirteen_students_def)
  from h1 h2 l signup_ignores_capacity[OF h1 h2, of example_key example_draws]
  show ?thesis by simp
qed

section \<open>Listing on the store\<close>

lemma dict_set_length: "length (dict_set h a key v) = length h"
  by (simp add: dict_set_def split: option.splits obj.splits)

lemma dict_set_take: "n \<le> a \<Longrightarrow> take n (dict_set h a key v) = take n h"
  by (simp add: dict_set_def split: option.splits obj.splits)

text \<open>
  The loop touches no address below \<open>n\<close>, provided the result dict lies at or above
  \<open>n\<close>: it allocates, and it assigns into the result dict and into the copies it has
  allocated.
\<close>

lemma items_take:
  "n \<le> da \<Longrightarrow> n \<le> length h \<Longrightarrow>
   take n (snd (get_activities_items k da its h)) = take n h"
proof (induction its arbitrary: h)
  case Nil
  show ?case by simp
next
  case (Cons it its)
  obtain name v where it: "it = (name, v)" by (cases it)
  show ?case
    using Cons.prems Cons.IH
    by (auto simp: it alloc_def dict_set_take dict_set_length
          split: val.splits option.splits obj.splits sum.splits)
qed

lemma items_result:
  "fst (get_activities_items k da its h) = Inr v \<Longrightarrow> v = Ref da"
proof (induction its arbitrary: h)
  case Nil
  then show ?case by simp
next
  case (Cons it its)
  obtain name w where it: "it = (name, w)" by (cases it)
  show ?case
    using Cons.prems Cons.IH
    by (auto simp: it alloc_def split: val.splits option.splits obj.splits sum.splits)
qed

text \<open>Whatever can be read from a store can be read from every extension of it.\<close>

lemma deref_extend:
  "deref h a = Some ob \<Longrightarrow> take (length h) h' = h \<Longrightarrow> deref h' a = Some ob"
proof -
  assume d: "deref h a = Some ob" and t: "take (length h) h' = h"
  have a: "a < length h" "h ! a = ob" using d by (auto simp: deref_def split: if_splits)
  have "length (take (length h) h') = length h" using t by simp
  then have l: "length h \<le> length h'" by simp
  have "take (length h) h' ! a = h' ! a" using a by simp
  then have "h' ! a = ob" using a t by simp
  then show ?thesis using a l by (simp add: deref_def)
qed

lemma the_dict_extend:
  "the_dict h v = Some x \<Longrightarrow> take (length h) h' = h \<Longrightarrow> the_dict h' v = Some x"
  by (auto simp: the_dict_def split: val.splits option.splits obj.splits dest: deref_extend)

lemma the_list_extend:
  "the_list h v = Some x \<Longrightarrow> take (length h) h' = h \<Longrightarrow> the_list h' v = Some x"
  by (auto simp: the_list_def split: val.splits option.splits obj.splits dest: deref_extend)

lemma activity_at_extend:
  assumes "activity_at rd h v = Some info" and "take (length h) h' = h"
  shows "activity_at rd h' v = Some info"
proof -
  from assms(1) obtain entries where d: "the_dict h v = Some entries"
    by (cases "the_dict h v") (simp_all add: activity_at_def)
  from assms(1) d obtain pv where p: "map_of entries ''participants'' = Some pv"
    by (cases "map_of entries ''participants''")
       (simp_all add: activity_at_def split: Option.bind_splits)
  from assms(1) d p obtain vs where l: "the_list h pv = Some vs"
    by (cases "the_list h pv") (simp_all add: activity_at_def split: Option.bind_splits)
  have d': "the_dict h' v = Some entries" using the_dict_extend[OF d assms(2)] .
  have l': "the_list h' pv = Some vs" using the_list_extend[OF l assms(2)] .
  show ?thesis using assms(1) by (simp add: activity_at_def d d' p l l')
qed

lemma roster_items_extend:
  "roster_items rd h its = Some r \<Longrightarrow> take (length h) h' = h \<Longrightarrow>
   roster_items rd h' its = Some r"
proof (induction its arbitrary: r)
  case Nil
  then show ?case by simp
next
  case (Cons it its)
  obtain name v where it: "it = (name, v)" by (cases it)
  show ?case
    using Cons.prems Cons.IH
    by (auto simp: it bind_eq_Some_conv dest: activity_at_extend)
qed

lemma roster_at_extend:
  "roster_at rd h v = Some r \<Longrightarrow> take (length h) h' = h \<Longrightarrow> roster_at rd h' v = Some r"
  by (auto simp: roster_at_def bind_eq_Some_conv dest: the_dict_extend roster_items_extend)

text \<open>
  The store model computes what the roster model computes. Reading a record is not
  affected by an assignment into a dict of references, such as the result dict
  \<^verbatim>\<open>decrypted_activities\<close>.
\<close>

lemma refs_only_lookup:
  "refs_only kvs \<Longrightarrow> map_of kvs n = Some v \<Longrightarrow> \<exists>c. v = Ref c"
  by (auto simp: refs_only_def list_all_iff dest!: map_of_SomeD split: val.splits)

lemma refs_only_update: "refs_only kvs \<Longrightarrow> refs_only (AList.update n (Ref c) kvs)"
  using set_update_subset[of n "Ref c" kvs]
  by (fastforce simp: refs_only_def list_all_iff)

lemma deref_agree:
  "deref h a = Some ob \<Longrightarrow> agree_except da h h' \<Longrightarrow> a \<noteq> da \<Longrightarrow> deref h' a = Some ob"
  by (auto simp: deref_def agree_except_def split: if_splits)

lemma activity_at_agree:
  assumes "activity_at rd h v = Some info" and "agree_except da h h'"
    and "deref h da = Some (Dict kvs)" and "refs_only kvs"
  shows "activity_at rd h' v = Some info"
proof -
  from assms(1) obtain entries where d: "the_dict h v = Some entries"
    by (cases "the_dict h v") (simp_all add: activity_at_def)
  from assms(1) d obtain dv where dv: "map_of entries ''description'' = Some dv"
    by (cases "map_of entries ''description''") (simp_all add: activity_at_def)
  from assms(1) d dv obtain ds where ds: "the_str dv = Some ds"
    by (cases "the_str dv") (simp_all add: activity_at_def)
  from assms(1) d obtain pv where p: "map_of entries ''participants'' = Some pv"
    by (cases "map_of entries ''participants''")
       (simp_all add: activity_at_def split: Option.bind_splits)
  from assms(1) d p obtain vs where l: "the_list h pv = Some vs"
    by (cases "the_list h pv") (simp_all add: activity_at_def split: Option.bind_splits)
  from d obtain a where a: "v = Ref a" "deref h a = Some (Dict entries)"
    by (auto simp: the_dict_def split: val.splits option.splits obj.splits)
  have "a \<noteq> da"
  proof
    assume "a = da"
    then have "entries = kvs" using a assms(3) by simp
    then obtain c where "dv = Ref c" using refs_only_lookup[OF assms(4)] dv by blast
    then show False using ds by (simp add: the_str_def)
  qed
  then have d': "the_dict h' v = Some entries"
    using deref_agree[OF a(2) assms(2)] a(1) by (simp add: the_dict_def)
  from l obtain b where b: "pv = Ref b" "deref h b = Some (List vs)"
    by (auto simp: the_list_def split: val.splits option.splits obj.splits)
  have "b \<noteq> da" using b assms(3) by auto
  then have l': "the_list h' pv = Some vs"
    using deref_agree[OF b(2) assms(2)] b(1) by (simp add: the_list_def)
  show ?thesis using assms(1) by (simp add: activity_at_def d d' p l l')
qed

lemma roster_items_agree:
  "roster_items rd h its = Some r \<Longrightarrow> agree_except da h h' \<Longrightarrow>
   deref h da = Some (Dict kvs) \<Longrightarrow> refs_only kvs \<Longrightarrow> roster_items rd h' its = Some r"
proof (induction its arbitrary: r)
  case Nil
  then show ?case by simp
next
  case (Cons it its)
  obtain name v where it: "it = (name, v)" by (cases it)
  show ?case
    using Cons.prems Cons.IH
    by (auto simp: it bind_eq_Some_conv dest: activity_at_agree)
qed

lemma roster_items_update:
  "roster_items rd h kvs = Some r \<Longrightarrow> activity_at rd h v = Some x \<Longrightarrow>
   roster_items rd h (AList.update n v kvs) = Some (AList.update n x r)"
proof (induction kvs arbitrary: r)
  case Nil
  then show ?case by simp
next
  case (Cons kv kvs)
  obtain m w where kv: "kv = (m, w)" by (cases kv)
  show ?case
    using Cons.prems Cons.IH
    by (auto simp: kv bind_eq_Some_conv)
qed

lemma those_vals_tok:
  "those_vals the_tok vs = Some ts \<Longrightarrow>
   decrypt_vals k vs = (case decrypt_all k ts of Inl e \<Rightarrow> Inl e | Inr ps \<Rightarrow> Inr (map Str ps))"
proof (induction vs arbitrary: ts)
  case Nil
  then show ?case by simp
next
  case (Cons v vs)
  then show ?case
    by (auto simp: bind_eq_Some_conv the_tok_def decrypt_val_def
          split: val.splits sum.splits)
qed

lemma those_vals_str: "those_vals the_str (map Str ps) = Some ps"
  by (induction ps) (simp_all add: the_str_def)

lemma activity_at_tokD:
  assumes "activity_at the_tok h v = Some info"
  shows "\<exists>a entries l vs dv sv mv. v = Ref a \<and> deref h a = Some (Dict entries) \<and>
     map_of entries ''participants'' = Some (Ref l) \<and> deref h l = Some (List vs) \<and>
     those_vals the_tok vs = Some (participants info) \<and>
     map_of entries ''description'' = Some dv \<and> the_str dv = Some (description info) \<and>
     map_of entries ''schedule'' = Some sv \<and> the_str sv = Some (schedule info) \<and>
     map_of entries ''max_participants'' = Some mv \<and>
     the_num mv = Some (max_participants info)"
proof -
  from assms obtain entries d s m vs ps where
    e: "the_dict h v = Some entries"
    and f: "Option.bind (map_of entries ''description'') the_str = Some d"
       "Option.bind (map_of entries ''schedule'') the_str = Some s"
       "Option.bind (map_of entries ''max_participants'') the_num = Some m"
       "Option.bind (map_of entries ''participants'') (the_list h) = Some vs"
       "those_vals the_tok vs = Some ps"
    and i: "info = \<lparr>description = d, schedule = s, max_participants = m, participants = ps\<rparr>"
    unfolding activity_at_def bind_eq_Some_conv by blast
  from e obtain a where a: "v = Ref a" "deref h a = Some (Dict entries)"
    by (auto simp: the_dict_def split: val.splits option.splits obj.splits)
  from f(4) obtain pv where pv: "map_of entries ''participants'' = Some pv" "the_list h pv = Some vs"
    by (auto simp: bind_eq_Some_conv)
  from pv(2) obtain l where l: "pv = Ref l" "deref h l = Some (List vs)"
    by (auto simp: the_list_def split: val.splits option.splits obj.splits)
  from f(1) obtain dv where dv: "map_of entries ''description'' = Some dv" "the_str dv = Some d"
    by (auto simp: bind_eq_Some_conv)
  from f(2) obtain sv where sv: "map_of entries ''schedule'' = Some sv" "the_str sv = Some s"
    by (auto simp: bind_eq_Some_conv)
  from f(3) obtain mv where mv: "map_of entries ''max_participants'' = Some mv" "the_num mv = Some m"
    by (auto simp: bind_eq_Some_conv)
  show ?thesis using a pv l f(5) dv sv mv i by auto
qed

text \<open>
  One run of the loop on the store, against the loop on rosters: \<open>h0\<close> is the store at
  entry of \<^verbatim>\<open>get_activities\<close>, \<open>h\<close> the store so far, and the dict at \<open>da\<close> reads as the
  listing built so far.
\<close>

lemma items_refine:
  assumes "roster_items the_tok h0 its = Some rest"
    and "take (length h0) h = h0"
    and "length h0 \<le> da" and "da < length h"
    and "deref h da = Some (Dict accitems)" and "refs_only accitems"
    and "roster_items the_str h accitems = Some acc"
  shows "case get_activities_loop k rest acc of
           Inl err \<Rightarrow> fst (get_activities_items k da its h) = Inl err
         | Inr listing \<Rightarrow>
             fst (get_activities_items k da its h) = Inr (Ref da) \<and>
             roster_at the_str (snd (get_activities_items k da its h)) (Ref da) = Some listing"
  using assms
proof (induction its arbitrary: rest h accitems acc)
  case Nil
  then have "rest = []" by simp
  then show ?case using Nil by (simp add: roster_at_def the_dict_def)
next
  case (Cons it its)
  obtain name v where it: "it = (name, v)" by (cases it)
  from Cons.prems(1) obtain info rest' where
    ai: "activity_at the_tok h0 v = Some info"
    and ri: "roster_items the_tok h0 its = Some rest'"
    and rest: "rest = (name, info) # rest'"
    by (auto simp: it bind_eq_Some_conv)
  from activity_at_tokD[OF ai] obtain a entries l vs dv sv mv where
    v: "v = Ref a" and a0: "deref h0 a = Some (Dict entries)"
    and p: "map_of entries ''participants'' = Some (Ref l)"
    and l0: "deref h0 l = Some (List vs)"
    and tv: "those_vals the_tok vs = Some (participants info)"
    and fd: "map_of entries ''description'' = Some dv" "the_str dv = Some (description info)"
    and fs: "map_of entries ''schedule'' = Some sv" "the_str sv = Some (schedule info)"
    and fm: "map_of entries ''max_participants'' = Some mv"
            "the_num mv = Some (max_participants info)"
    by blast
  have a: "deref h a = Some (Dict entries)" using deref_extend[OF a0 Cons.prems(2)] .
  have l: "deref h l = Some (List vs)" using deref_extend[OF l0 Cons.prems(2)] .
  have l1: "deref (h @ [Dict entries]) l = Some (List vs)"
    using l by (auto simp: deref_def nth_append split: if_splits)
  note dv = those_vals_tok[OF tv, of k]
  show ?case
  proof (cases "decrypt_all k (participants info)")
    case (Inl err)
    then show ?thesis using a p l1 dv by (simp add: it v rest alloc_def)
  next
    case (Inr ps)
    let ?c = "length h"
    let ?l' = "Suc (length h)"
    let ?h2 = "h @ [Dict entries, List (map Str ps)]"
    let ?copy = "AList.update ''participants'' (Ref ?l') entries"
    let ?h3 = "?h2[?c := Dict ?copy]"
    let ?acc' = "AList.update name (Ref ?c) accitems"
    define h4 where "h4 = ?h3[da := Dict ?acc']"
    have hda: "h ! da = Dict accitems"
      using Cons.prems(4,5) by (simp add: deref_def)
    have c_set: "dict_set ?h2 ?c ''participants'' (Ref ?l') = ?h3"
      by (simp add: dict_set_def deref_def nth_append)
    have da_set: "dict_set ?h3 da name (Ref ?c) = h4"
      using Cons.prems(4) hda by (simp add: h4_def dict_set_def deref_def nth_append)
    have step: "get_activities_items k da (it # its) h = get_activities_items k da its h4"
      using a p l1 dv Inr c_set da_set by (simp add: it v alloc_def)
    have i2: "take (length h0) h4 = h0"
      using Cons.prems(2,3,4) by (simp add: h4_def)
    have i4: "da < length h4" using Cons.prems(4) by (simp add: h4_def)
    have i5: "deref h4 da = Some (Dict ?acc')"
      using Cons.prems(4) by (simp add: h4_def deref_def)
    have i6: "refs_only ?acc'" using Cons.prems(6) by (rule refs_only_update)
    have agree: "agree_except da h h4"
      by (simp add: h4_def agree_except_def nth_append)
    have old: "roster_items the_str h4 accitems = Some acc"
      using roster_items_agree[OF Cons.prems(7) agree Cons.prems(5) Cons.prems(6)] .
    have dc: "deref h4 ?c = Some (Dict ?copy)"
      using Cons.prems(4) by (simp add: h4_def deref_def nth_append)
    have dl: "deref h4 ?l' = Some (List (map Str ps))"
      using Cons.prems(4) by (simp add: h4_def deref_def nth_append)
    have new: "activity_at the_str h4 (Ref ?c) = Some (decrypted_info info ps)"
      using fd fs fm
      by (simp add: activity_at_def the_dict_def the_list_def dc dl update_conv'
            those_vals_str decrypted_info_def)
    have i7: "roster_items the_str h4 ?acc'
                = Some (AList.update name (decrypted_info info ps) acc)"
      using roster_items_update[OF old new] .
    have g: "get_activities_loop k rest acc
               = get_activities_loop k rest' (AList.update name (decrypted_info info ps) acc)"
      using Inr rest by simp
    show ?thesis
      unfolding step g using Cons.IH[OF ri i2 Cons.prems(3) i4 i5 i6 i7] .
  qed
qed

text \<open>
  If the store holds the roster \<open>acts\<close> at \<open>root\<close>, then \<^verbatim>\<open>get_activities\<close> on the store
  raises exactly when it raises on \<open>acts\<close>, with the same error, and otherwise returns a
  new dict that reads as the listing computed from \<open>acts\<close>.
\<close>

lemma get_activities_store_refines:
  assumes "roster_at the_tok h (Ref root) = Some acts"
  shows "case get_activities k acts of
           Inl err \<Rightarrow> fst (get_activities_store k root h) = Inl err
         | Inr listing \<Rightarrow>
             fst (get_activities_store k root h) = Inr (Ref (length h)) \<and>
             roster_at the_str (snd (get_activities_store k root h)) (Ref (length h))
               = Some listing"
proof -
  from assms obtain its where d: "deref h root = Some (Dict its)"
    and r: "roster_items the_tok h its = Some acts"
    by (auto simp: roster_at_def the_dict_def bind_eq_Some_conv
          split: option.splits obj.splits)
  let ?h1 = "h @ [Dict []]"
  have d1: "deref ?h1 root = Some (Dict its)"
    using d by (auto simp: deref_def nth_append split: if_splits)
  have s: "get_activities_store k root h = get_activities_items k (length h) its ?h1"
    using d1 by (simp add: get_activities_store_def alloc_def)
  have "case get_activities_loop k acts [] of
          Inl err \<Rightarrow> fst (get_activities_items k (length h) its ?h1) = Inl err
        | Inr listing \<Rightarrow>
            fst (get_activities_items k (length h) its ?h1) = Inr (Ref (length h)) \<and>
            roster_at the_str (snd (get_activities_items k (length h) its ?h1))
              (Ref (length h)) = Some listing"
    by (rule items_refine[where ?h0.0 = h and accitems = "[]", OF r])
       (simp_all add: deref_def refs_only_def)
  then show ?thesis
    unfolding s get_activities_def .
qed

text \<open>
  Every record that a returning call has put into the result dict is a copy made by the
  call, with a participant list made by the call; later iterations do not touch it.
\<close>

lemma fresh_record_agree:
  assumes "fresh_record da h v" and "agree_except da h h'"
  shows "fresh_record da h' v"
proof -
  from assms(1) obtain c where v: "v = Ref c"
    by (cases v) (simp_all add: fresh_record_def)
  from assms(1) v have c1: "da < c"
    and r1: "case deref h c of
               Some (Dict entries) \<Rightarrow>
                 (case map_of entries ''participants'' of
                    Some (Ref l) \<Rightarrow>
                      da < l \<and> (case deref h l of Some (List vs) \<Rightarrow> True | _ \<Rightarrow> False)
                  | _ \<Rightarrow> False)
             | _ \<Rightarrow> False"
    by (simp_all add: fresh_record_def)
  from r1 obtain entries where c2: "deref h c = Some (Dict entries)"
    by (cases "deref h c") (auto split: obj.splits)
  from r1 c2 have r2: "case map_of entries ''participants'' of
                         Some (Ref l) \<Rightarrow>
                           da < l \<and> (case deref h l of Some (List vs) \<Rightarrow> True | _ \<Rightarrow> False)
                       | _ \<Rightarrow> False"
    by simp
  from r2 obtain l where p: "map_of entries ''participants'' = Some (Ref l)"
    by (cases "map_of entries ''participants''") (auto split: val.splits)
  from r2 p have l1: "da < l"
    and r3: "case deref h l of Some (List vs) \<Rightarrow> True | _ \<Rightarrow> False"
    by simp_all
  from r3 obtain vs where l2: "deref h l = Some (List vs)"
    by (cases "deref h l") (auto split: obj.splits)
  note c = c1 c2 and l = l1 l2
  have c': "deref h' c = Some (Dict entries)"
    using deref_agree[OF c(2) assms(2)] c(1) by simp
  have l': "deref h' l = Some (List vs)"
    using deref_agree[OF l(2) assms(2)] l(1) by simp
  show ?thesis by (simp add: fresh_record_def v c(1) c' p l(1) l')
qed

lemma items_Cons_Inr:
  "fst (get_activities_items k da ((name, v) # its) h) = Inr r \<Longrightarrow>
   \<exists>a entries l es ps. v = Ref a \<and> deref h a = Some (Dict entries) \<and>
     map_of entries ''participants'' = Some (Ref l) \<and>
     deref (h @ [Dict entries]) l = Some (List es) \<and> decrypt_vals k es = Inr ps \<and>
     get_activities_items k da ((name, v) # its) h =
       get_activities_items k da its
         (dict_set
            (dict_set (h @ [Dict entries, List ps]) (length h) ''participants''
               (Ref (Suc (length h))))
            da name (Ref (length h)))"
  by (auto simp: alloc_def split: val.splits option.splits obj.splits sum.splits)

lemma items_fresh:
  assumes "da < length h" and "deref h da = Some (Dict accitems)"
    and "list_all (\<lambda>(name, v). fresh_record da h v) accitems"
    and "fst (get_activities_items k da its h) = Inr r"
  shows "fresh_listing da (snd (get_activities_items k da its h))"
  using assms
proof (induction its arbitrary: h accitems)
  case Nil
  then show ?case by (simp add: fresh_listing_def)
next
  case (Cons it its)
  obtain name v where it: "it = (name, v)" by (cases it)
  from items_Cons_Inr[OF Cons.prems(4)[unfolded it]] obtain a entries l es ps where
    v: "v = Ref a" and a: "deref h a = Some (Dict entries)"
    and p: "map_of entries ''participants'' = Some (Ref l)"
    and l1: "deref (h @ [Dict entries]) l = Some (List es)"
    and dv: "decrypt_vals k es = Inr ps"
    and step0: "get_activities_items k da ((name, v) # its) h =
       get_activities_items k da its
         (dict_set
            (dict_set (h @ [Dict entries, List ps]) (length h) ''participants''
               (Ref (Suc (length h))))
            da name (Ref (length h)))"
    by blast
  let ?c = "length h"
  let ?l' = "Suc (length h)"
  let ?h2 = "h @ [Dict entries, List ps]"
  let ?copy = "AList.update ''participants'' (Ref ?l') entries"
  let ?h3 = "?h2[?c := Dict ?copy]"
  let ?acc' = "AList.update name (Ref ?c) accitems"
  define h4 where "h4 = ?h3[da := Dict ?acc']"
  have hda: "h ! da = Dict accitems"
    using Cons.prems(1,2) by (simp add: deref_def)
  have c_set: "dict_set ?h2 ?c ''participants'' (Ref ?l') = ?h3"
    by (simp add: dict_set_def deref_def nth_append)
  have da_set: "dict_set ?h3 da name (Ref ?c) = h4"
    using Cons.prems(1) hda by (simp add: h4_def dict_set_def deref_def nth_append)
  have step: "get_activities_items k da (it # its) h = get_activities_items k da its h4"
    using step0 c_set da_set by (simp add: it)
  have i1: "da < length h4" using Cons.prems(1) by (simp add: h4_def)
  have i2: "deref h4 da = Some (Dict ?acc')"
    using Cons.prems(1) by (simp add: h4_def deref_def)
  have agree: "agree_except da h h4"
    by (simp add: h4_def agree_except_def nth_append)
  have dc: "deref h4 ?c = Some (Dict ?copy)"
    using Cons.prems(1) by (simp add: h4_def deref_def nth_append)
  have dl: "deref h4 ?l' = Some (List ps)"
    using Cons.prems(1) by (simp add: h4_def deref_def nth_append)
  have new: "fresh_record da h4 (Ref ?c)"
    using Cons.prems(1) by (simp add: fresh_record_def dc dl update_conv')
  have old: "list_all (\<lambda>(name, v). fresh_record da h4 v) accitems"
    using Cons.prems(3) fresh_record_agree[OF _ agree]
    by (auto simp: list_all_iff)
  have i3: "list_all (\<lambda>(name, v). fresh_record da h4 v) ?acc'"
    using old new set_update_subset[of name "Ref ?c" accitems]
    by (fastforce simp: list_all_iff)
  have i4: "fst (get_activities_items k da its h4) = Inr r"
    using Cons.prems(4) unfolding step .
  show ?case unfolding step using Cons.IH[OF i1 i2 i3 i4] .
qed

lemma get_activities_store_fresh:
  assumes "fst (get_activities_store k root h) = Inr r"
  shows "fresh_listing (length h) (snd (get_activities_store k root h))"
proof -
  let ?h1 = "h @ [Dict []]"
  from assms obtain its where d1: "deref ?h1 root = Some (Dict its)"
    by (auto simp: get_activities_store_def alloc_def split: option.splits obj.splits)
  have s: "get_activities_store k root h = get_activities_items k (length h) its ?h1"
    using d1 by (simp add: get_activities_store_def alloc_def)
  have r: "fst (get_activities_items k (length h) its ?h1) = Inr r"
    using assms unfolding s .
  have "fresh_listing (length h) (snd (get_activities_items k (length h) its ?h1))"
    by (rule items_fresh[where accitems = "[]", OF _ _ _ r]) (simp_all add: deref_def)
  then show ?thesis unfolding s .
qed

text \<open>
  On the example store the two models agree: the store holds the example roster, and the
  dict that \<^verbatim>\<open>get_activities\<close> returns reads back as the seed emails.
\<close>

lemma example_store_listing:
  "example_store = (18, snd example_store) \<and>
   roster_at the_tok (snd example_store) (Ref 18) = Some example_roster \<and>
   roster_at the_str (snd (get_activities_store example_key 18 (snd example_store))) (Ref 19)
     = Some seed_emails"
  by code_simp

text \<open>
  Claim C10: \<^verbatim>\<open>get_activities\<close> only reads the stored data, and returns new copies of
  the records. For every store and every address of the \<^verbatim>\<open>activities\<close> dict:
  \<^item> each object that exists before the call is the same object after it, so the roster
    read at \<^verbatim>\<open>activities\<close> is the same, sealed participant lists included;
  \<^item> when the call returns, it returns the dict it has allocated first, that dict exists
    in the store after the call, and each of its values is a record allocated by the
    call whose participant list is allocated by the call: no stored record and no stored
    list is handed out;
  \<^item> when the store holds a roster at \<^verbatim>\<open>activities\<close> and all its tokens open, the call
    returns, and the returned dict reads as the listing of that roster, with the emails
    in the clear.
\<close>

theorem get_activities_read_only:
  "take (length h) (snd (get_activities_store k root h)) = h \<and>
   (\<forall>acts. roster_at the_tok h (Ref root) = Some acts \<longrightarrow>
      roster_at the_tok (snd (get_activities_store k root h)) (Ref root) = Some acts) \<and>
   (\<forall>v. fst (get_activities_store k root h) = Inr v \<longrightarrow>
      v = Ref (length h) \<and>
      fresh_listing (length h) (snd (get_activities_store k root h))) \<and>
   (\<forall>acts listing.
      roster_at the_tok h (Ref root) = Some acts \<longrightarrow>
      get_activities k acts = Inr listing \<longrightarrow>
      fst (get_activities_store k root h) = Inr (Ref (length h)) \<and>
      roster_at the_str (snd (get_activities_store k root h)) (Ref (length h))
        = Some listing)"
proof -
  have t: "take (length h) (snd (get_activities_store k root h)) = h"
    using items_take[of "length h" "length h" "h @ [Dict []]" k]
    by (auto simp: get_activities_store_def alloc_def split: option.splits obj.splits)
  have r: "\<forall>v. fst (get_activities_store k root h) = Inr v \<longrightarrow> v = Ref (length h)"
    using items_result[of k "length h" _ "h @ [Dict []]"]
    by (auto simp: get_activities_store_def alloc_def split: option.splits obj.splits)
  have f: "\<forall>v. fst (get_activities_store k root h) = Inr v \<longrightarrow>
             fresh_listing (length h) (snd (get_activities_store k root h))"
    using get_activities_store_fresh by blast
  have c: "\<forall>acts listing.
      roster_at the_tok h (Ref root) = Some acts \<longrightarrow>
      get_activities k acts = Inr listing \<longrightarrow>
      fst (get_activities_store k root h) = Inr (Ref (length h)) \<and>
      roster_at the_str (snd (get_activities_store k root h)) (Ref (length h))
        = Some listing"
  proof (intro allI impI)
    fix acts listing
    assume a: "roster_at the_tok h (Ref root) = Some acts"
      and g: "get_activities k acts = Inr listing"
    from get_activities_store_refines[OF a, of k] g
    show "fst (get_activities_store k root h) = Inr (Ref (length h)) \<and>
      roster_at the_str (snd (get_activities_store k root h)) (Ref (length h))
        = Some listing"
      by simp
  qed
  from t r f c roster_at_extend[OF _ t] show ?thesis by blast
qed

theorem get_activities_read_only_witness:
  "roster_at the_tok (snd example_store) (Ref 18) = Some example_roster \<and>
   get_activities example_key example_roster = Inr seed_emails \<and>
   fst (get_activities_store example_key 18 (snd example_store)) = Inr (Ref 19) \<and>
   take 19 (snd (get_activities_store example_key 18 (snd example_store)))
     = snd example_store \<and>
   roster_at the_tok (snd (get_activities_store example_key 18 (snd example_store))) (Ref 18)
     = Some example_roster \<and>
   fresh_listing 19 (snd (get_activities_store example_key 18 (snd example_store))) \<and>
   roster_at the_str (snd (get_activities_store example_key 18 (snd example_store))) (Ref 19)
     = Some seed_emails"
proof -
  have l: "length (snd example_store) = 19"
    by code_simp
  have h1: "roster_at the_tok (snd example_store) (Ref 18) = Some example_roster"
    by code_simp
  have h2: "fst (get_activities_store example_key 18 (snd example_store)) = Inr (Ref 19)"
    by code_simp
  have h3: "get_activities example_key example_roster = Inr seed_emails"
    by code_simp
  note inst = get_activities_read_only[of "snd example_store" example_key 18, unfolded l]
  have a: "take 19 (snd (get_activities_store example_key 18 (snd example_store)))
             = snd example_store"
    using inst[THEN conjunct1] .
  have b: "roster_at the_tok (snd (get_activities_store example_key 18 (snd example_store)))
             (Ref 18) = Some example_roster"
    using inst[THEN conjunct2, THEN conjunct1, THEN spec, THEN mp, OF h1] .
  have c: "fresh_listing 19 (snd (get_activities_store example_key 18 (snd example_store)))"
    using inst[THEN conjunct2, THEN conjunct2, THEN conjunct1, THEN spec, THEN mp, OF h2,
              THEN conjunct2] .
  have d: "roster_at the_str (snd (get_activities_store example_key 18 (snd example_store)))
             (Ref 19) = Some seed_emails"
    using inst[THEN conjunct2, THEN conjunct2, THEN conjunct2, THEN spec, THEN spec,
              THEN mp, OF h1, THEN mp, OF h3, THEN conjunct2] .
  show ?thesis
    using h1 h3 h2 a b c d by (simp only: simp_thms)
qed

end
